theory Spec2Isabelle
  imports Main
begin

section \<open>Strings\<close>

text \<open>
  A JavaScript string is a sequence of UTF-16 code units. The model uses \<^typ>\<open>string\<close>
  and reads a \<^typ>\<open>char\<close> as a code unit in the range U+0000..U+00FF. In that range
  \<open>String.prototype.trim\<close> strips TAB, LF, VT, FF, CR, SPACE and NO-BREAK SPACE from
  both ends.
\<close>

definition is_white_space :: "char \<Rightarrow> bool" where
  "is_white_space c = ((of_char c :: nat) \<in> set [9, 10, 11, 12, 13, 32, 160])"

definition trim :: "string \<Rightarrow> string" where
  "trim s = rev (dropWhile is_white_space (rev (dropWhile is_white_space s)))"

text \<open>\<open>Array.prototype.join\<close> on an array of strings.\<close>

fun join :: "string \<Rightarrow> string list \<Rightarrow> string" where
  "join sep [] = []"
| "join sep [x] = x"
| "join sep (x # y # ys) = x @ sep @ join sep (y # ys)"

text \<open>
  The decimal text a template literal gives for a non-negative integer.
  \<open>digit_char\<close> is only applied to numbers below 10.
\<close>

definition digit_char :: "nat \<Rightarrow> char" where
  "digit_char d = ''0123456789'' ! d"

function string_of_nat :: "nat \<Rightarrow> string" where
  "string_of_nat n =
     (if n < 10 then [digit_char n] else string_of_nat (n div 10) @ [digit_char (n mod 10)])"
  by pat_completeness auto
termination
  by (relation "measure (\<lambda>n. n)") auto

text \<open>Reading a decimal text back.\<close>

definition nat_of_digits :: "string \<Rightarrow> nat" where
  "nat_of_digits ds = foldl (\<lambda>a c. 10 * a + (of_char c - 48)) 0 ds"

section \<open>The page\<close>

text \<open>
  A DOM node is represented by its \<open>textContent\<close>; \<open>None\<close> is \<open>null\<close>, on which
  \<open>.trim()\<close> raises a TypeError. A track-list row is represented by what the two selector
  queries of \<open>extractSongs\<close> return on it: \<open>titleDiv\<close> is the result of
  \<open>row.querySelector('div[aria-colindex="2"] div[dir="auto"]')\<close> (\<open>None\<close> when nothing
  matches) and \<open>artistLinks\<close> is the result of
  \<open>row.querySelectorAll('div[aria-colindex="3"] a')\<close>, in document order.
\<close>

type_synonym node = "string option"

record row =
  titleDiv :: "node option"
  artistLinks :: "node list"

datatype error = TypeError

datatype handler = ExportSongs

record button =
  textContent :: string
  disabled :: bool
  style :: "(string \<times> string) list"
  onclick :: "handler option"

text \<open>
  The part of the document the script queries: whether each selector it uses matches,
  and the elements whose id is \<open>export-songs-btn\<close> in document order
  (\<open>getElementById\<close> returns the first of them). \<open>gmClipboard\<close> says whether
  \<open>GM_setClipboard\<close> is defined.
\<close>

record page =
  entityHeader :: bool
  headerTag :: bool
  exportButtons :: "button list"
  presentationDiv :: bool
  playlistTracklist :: bool
  trackListDiv :: bool
  gmClipboard :: bool

text \<open>
  What the script does to its environment, in program order. \<open>CallExtractSongs\<close> marks a
  call of \<open>extractSongs\<close>; \<open>DownloadFile\<close> stands for lines 107 to 115 (blob, temporary
  anchor, click, clean-up).
\<close>

datatype event =
    SetBtnText string
  | SetBtnDisabled bool
  | Alert string
  | ScrollTo
  | Sleep nat
  | CallExtractSongs
  | GM_setClipboard string
  | ClipboardWriteText string
  | DownloadFile string string

section \<open>addExportButton\<close>

definition getExportBtn :: "page \<Rightarrow> button option" where
  "getExportBtn p = (case exportButtons p of [] \<Rightarrow> None | b # _ \<Rightarrow> Some b)"

definition newExportButton :: button where
  "newExportButton =
     \<lparr> textContent = ''Export Songs'',
       disabled = False,
       style = [(''marginLeft'', ''16px''), (''padding'', ''8px 16px''),
                (''background'', ''#1db954''), (''color'', ''#fff''),
                (''border'', ''none''), (''borderRadius'', ''20px''),
                (''cursor'', ''pointer'')],
       onclick = Some ExportSongs \<rparr>"

definition addExportButton :: "page \<Rightarrow> page" where
  "addExportButton p =
     (if getExportBtn p \<noteq> None then p
      else if \<not> (entityHeader p \<or> headerTag p) then p
      else p\<lparr>exportButtons := exportButtons p @ [newExportButton]\<rparr>)"

section \<open>scrollToLoadAllSongs\<close>

text \<open>
  The host page materialises rows as the container is scrolled. \<open>rows_after k\<close> is the
  list of \<open>div[data-testid="tracklist-row"]\<close> elements in document order once \<open>k\<close>
  rounds of scroll-and-sleep have been performed (\<open>rows_after 0\<close> at invocation). The
  loop returns the effects it performed; it performs one \<open>ScrollTo\<close> per round.
\<close>

definition containerNotFoundMsg :: string where
  "containerNotFoundMsg =
     ''Could not find the scrollable container. Please make sure you're on a playlist or liked songs page.''"

function scroll_loop :: "(nat \<Rightarrow> row list) \<Rightarrow> nat \<Rightarrow> nat \<Rightarrow> nat \<Rightarrow> event list" where
  "scroll_loop rows_after i lastCount sameCountTimes =
     (if i < 100 then
        [ScrollTo, Sleep 700] @
        (let rows = rows_after (Suc i) in
         if length rows = lastCount then
           (if Suc sameCountTimes > 3 then []
            else scroll_loop rows_after (Suc i) (length rows) (Suc sameCountTimes))
         else scroll_loop rows_after (Suc i) (length rows) 0)
      else [])"
  by pat_completeness auto
termination
  by (relation "measure (\<lambda>(r, i, l, s). 100 - i)") auto

definition scrollContainer :: "page \<Rightarrow> bool" where
  "scrollContainer p = (presentationDiv p \<or> playlistTracklist p \<or> trackListDiv p)"

definition scrollToLoadAllSongs :: "page \<Rightarrow> (nat \<Rightarrow> row list) \<Rightarrow> event list" where
  "scrollToLoadAllSongs p rows_after =
     (if \<not> scrollContainer p then [Alert containerNotFoundMsg]
      else scroll_loop rows_after 0 0 0)"

definition scroll_rounds :: "event list \<Rightarrow> nat" where
  "scroll_rounds evs = length (filter (\<lambda>e. e = ScrollTo) evs)"

section \<open>extractSongs\<close>

definition text_trim :: "node \<Rightarrow> error + string" where
  "text_trim n = (case n of None \<Rightarrow> Inl TypeError | Some s \<Rightarrow> Inr (trim s))"

text \<open>\<open>Array.from(artistLinks).map(a => a.textContent.trim())\<close>: the first raise ends the map.\<close>

fun map_text_trim :: "node list \<Rightarrow> error + string list" where
  "map_text_trim [] = Inr []"
| "map_text_trim (a # as) =
     (case text_trim a of
        Inl e \<Rightarrow> Inl e
      | Inr s \<Rightarrow> (case map_text_trim as of Inl e \<Rightarrow> Inl e | Inr ss \<Rightarrow> Inr (s # ss)))"

text \<open>
  The body of the \<open>try\<close> block. \<open>row_title\<close> is the value of \<open>title\<close> (lines 75 and 76),
  \<open>row_artists\<close> the array of trimmed artist texts that line 79 joins, and \<open>read_row\<close> the
  string that line 80 pushes.
\<close>

definition row_title :: "row \<Rightarrow> error + string" where
  "row_title r = (case titleDiv r of None \<Rightarrow> Inr ''[Unknown Title]'' | Some d \<Rightarrow> text_trim d)"

definition row_artists :: "row \<Rightarrow> error + string list" where
  "row_artists r = map_text_trim (artistLinks r)"

definition read_row :: "row \<Rightarrow> error + string" where
  "read_row r =
     (case row_title r of
        Inl e \<Rightarrow> Inl e
      | Inr title \<Rightarrow>
          (case row_artists r of
             Inl e \<Rightarrow> Inl e
           | Inr names \<Rightarrow> Inr (title @ '' - '' @ join '', '' names)))"

text \<open>One step of \<open>rows.forEach\<close>: \<open>catch (e) {}\<close> leaves \<open>songs\<close> as it is.\<close>

definition extract_step :: "row \<Rightarrow> string list \<Rightarrow> string list" where
  "extract_step r songs = (case read_row r of Inl e \<Rightarrow> songs | Inr line \<Rightarrow> songs @ [line])"

definition extractSongs :: "row list \<Rightarrow> string list" where
  "extractSongs rows = fold extract_step rows []"

section \<open>exportSongs\<close>

definition noSongsMsg :: string where
  "noSongsMsg = ''No songs found! Make sure you are on a playlist or liked songs page.''"

definition exportedMsg :: "nat \<Rightarrow> string" where
  "exportedMsg n =
     ''Exported '' @ string_of_nat n @ '' songs!'' @ [CHR 0x0A] @
     ''Copied to clipboard and downloaded as spotify_songs.txt''"

definition set_btn :: "page \<Rightarrow> button \<Rightarrow> page" where
  "set_btn p b = p\<lparr>exportButtons := b # tl (exportButtons p)\<rparr>"

text \<open>The effect of one event on the button that \<open>btn\<close> refers to.\<close>

fun btn_effect :: "event \<Rightarrow> button \<Rightarrow> button" where
  "btn_effect (SetBtnText s) b = b\<lparr>textContent := s\<rparr>"
| "btn_effect (SetBtnDisabled d) b = b\<lparr>disabled := d\<rparr>"
| "btn_effect _ b = b"

definition btn_after :: "button \<Rightarrow> event list \<Rightarrow> button" where
  "btn_after b evs = fold btn_effect evs b"

text \<open>Lines 93 to 118: what \<open>exportSongs\<close> does once \<open>songs\<close> is known.\<close>

definition exportSongs_finish :: "page \<Rightarrow> string list \<Rightarrow> event list" where
  "exportSongs_finish p songs =
     (if length songs = 0 then
        [Alert noSongsMsg, SetBtnText ''Export Songs'', SetBtnDisabled False]
      else
        (let text = join [CHR 0x0A] songs in
         [if gmClipboard p then GM_setClipboard text else ClipboardWriteText text,
          DownloadFile ''spotify_songs.txt'' text,
          Alert (exportedMsg (length songs)),
          SetBtnText ''Export Songs'', SetBtnDisabled False]))"

text \<open>
  \<open>exportSongs\<close> returns the page it leaves and the effects it performed, or the
  TypeError raised at line 89 when \<open>getElementById\<close> returned \<open>null\<close>. The rows read by
  \<open>extractSongs\<close> are those materialised after the rounds the loop performed. The page
  returned is the document the cycle leaves when the host page keeps the button that
  line 88 found in place for the whole cycle; \<open>world_after\<close> below follows a document that
  the host page changes while the cycle sleeps.
\<close>

definition exportSongs :: "page \<Rightarrow> (nat \<Rightarrow> row list) \<Rightarrow> error + (page \<times> event list)" where
  "exportSongs p rows_after =
     (case getExportBtn p of
        None \<Rightarrow> Inl TypeError
      | Some btn \<Rightarrow>
          (let started = [SetBtnText ''Exporting...'', SetBtnDisabled True];
               scrolled = scrollToLoadAllSongs p rows_after;
               songs = extractSongs (rows_after (scroll_rounds scrolled));
               effects = started @ scrolled @ [CallExtractSongs] @ exportSongs_finish p songs
           in Inr (set_btn p (btn_after btn effects), effects)))"


definition idle :: "button \<Rightarrow> button" where
  "idle b = b\<lparr>textContent := ''Export Songs'', disabled := False\<rparr>"










definition effects_of :: "error + (page \<times> event list) \<Rightarrow> event list" where
  "effects_of res = (case res of Inl e \<Rightarrow> [] | Inr (p, effects) \<Rightarrow> effects)"

definition extract_calls :: "event list \<Rightarrow> nat" where
  "extract_calls evs = length (filter (\<lambda>e. e = CallExtractSongs) evs)"

section \<open>Row counts as the loop observes them\<close>

text \<open>
  \<open>observed rows_after k\<close> is the value of \<open>rows.length\<close> in round \<open>k\<close> (rounds are
  numbered from 1); \<open>observed rows_after 0\<close> is the initial value of \<open>lastCount\<close>.
  \<open>stable_at rows_after k\<close> says that the last five of these values up to round \<open>k\<close>
  are equal: the count has then been the same for more than four consecutive readings, and
  \<open>sameCountTimes\<close> has been incremented four times in a row.
\<close>

definition observed :: "(nat \<Rightarrow> row list) \<Rightarrow> nat \<Rightarrow> nat" where
  "observed rows_after k = (if k = 0 then 0 else length (rows_after k))"

definition stable_at :: "(nat \<Rightarrow> row list) \<Rightarrow> nat \<Rightarrow> bool" where
  "stable_at rows_after k =
     (4 \<le> k \<and>
      observed rows_after (k - 4) = observed rows_after k \<and>
      observed rows_after (k - 3) = observed rows_after k \<and>
      observed rows_after (k - 2) = observed rows_after k \<and>
      observed rows_after (k - 1) = observed rows_after k)"

text \<open>The value of \<open>sameCountTimes\<close> after round \<open>k\<close> of a loop that has not stopped.\<close>

fun streak :: "(nat \<Rightarrow> row list) \<Rightarrow> nat \<Rightarrow> nat" where
  "streak ra 0 = 0"
| "streak ra (Suc k) =
     (if observed ra (Suc k) = observed ra k then Suc (streak ra k) else 0)"

text \<open>
  Three statements about a run. \<open>first_stable_round rows_after k\<close>: round \<open>k\<close> is within
  the cap and is the first round at which the readings are stable. \<open>never_stable\<close>: no
  round up to the cap is. \<open>export_after_rounds p rows_after k\<close>: the loop performs exactly
  \<open>k\<close> rounds, and the export cycle consists of marking the button busy, those \<open>k\<close>
  rounds, one call of \<open>extractSongs\<close> on the rows materialised after round \<open>k\<close>, and
  the report of its result, with no scroll after the loop.
\<close>

definition first_stable_round :: "(nat \<Rightarrow> row list) \<Rightarrow> nat \<Rightarrow> bool" where
  "first_stable_round rows_after k =
     (k \<le> 100 \<and> stable_at rows_after k \<and> list_all (\<lambda>j. \<not> stable_at rows_after j) [0..<k])"

definition never_stable :: "(nat \<Rightarrow> row list) \<Rightarrow> bool" where
  "never_stable rows_after = list_all (\<lambda>j. \<not> stable_at rows_after j) [0..<101]"

definition export_after_rounds :: "page \<Rightarrow> (nat \<Rightarrow> row list) \<Rightarrow> nat \<Rightarrow> bool" where
  "export_after_rounds p rows_after k =
     (scrollToLoadAllSongs p rows_after = concat (replicate k [ScrollTo, Sleep 700]) \<and>
      (case exportSongs p rows_after of
         Inl e \<Rightarrow> False
       | Inr (p', effects) \<Rightarrow>
           effects = [SetBtnText ''Exporting...'', SetBtnDisabled True] @
             concat (replicate k [ScrollTo, Sleep 700]) @ [CallExtractSongs] @
             exportSongs_finish p (extractSongs (rows_after k)) \<and>
           scroll_rounds effects = k \<and> extract_calls effects = 1))"

section \<open>Rows and the lines they give\<close>

text \<open>
  \<open>raises r\<close>: one of the nodes that \<open>extractSongs\<close> reads on \<open>r\<close> has a \<open>null\<close>
  \<open>textContent\<close>. \<open>record_line r\<close> is the canonical line of a row: its title text, or the
  sentinel when the row has no title node, then \<open>" - "\<close>, then the artist texts joined
  by \<open>", "\<close>; every text is taken as \<open>trim\<close> leaves it. \<open>trimmed s\<close>: \<open>s\<close> neither begins
  nor ends with white space.
\<close>

definition raises :: "row \<Rightarrow> bool" where
  "raises r = (titleDiv r = Some None \<or> None \<in> set (artistLinks r))"

definition node_text :: "node \<Rightarrow> string" where
  "node_text n = (case n of None \<Rightarrow> [] | Some s \<Rightarrow> trim s)"

definition record_title :: "row \<Rightarrow> string" where
  "record_title r = (case titleDiv r of None \<Rightarrow> ''[Unknown Title]'' | Some d \<Rightarrow> node_text d)"

definition record_line :: "row \<Rightarrow> string" where
  "record_line r = record_title r @ '' - '' @ join '', '' (map node_text (artistLinks r))"

definition trimmed :: "string \<Rightarrow> bool" where
  "trimmed s = (case s of [] \<Rightarrow> True | c # cs \<Rightarrow> \<not> is_white_space c \<and> \<not> is_white_space (last s))"

section \<open>Example pages\<close>

definition example_button :: button where
  "example_button = newExportButton"

definition playlist_page :: page where
  "playlist_page =
     \<lparr> entityHeader = True, headerTag = True, exportButtons = [example_button],
       presentationDiv = True, playlistTracklist = False, trackListDiv = False,
       gmClipboard = True \<rparr>"

definition song_row :: row where
  "song_row = \<lparr> titleDiv = Some (Some ''Tsunami''),
                 artistLinks = [Some ''DVBBS'', Some ''Borgeous''] \<rparr>"

text \<open>
  A row without a title node, two rows on which reading raises, a row without artist
  links, a row whose texts carry white space of every kind around them, a row without a
  title node and with two artists, and a row whose title node has an empty text.
\<close>

definition untitled_row :: row where
  "untitled_row = \<lparr> titleDiv = None, artistLinks = [Some ''Avicii''] \<rparr>"

definition broken_row :: row where
  "broken_row = \<lparr> titleDiv = Some (Some ''Wake Me Up''), artistLinks = [Some ''Avicii'', None] \<rparr>"

definition null_title_row :: row where
  "null_title_row = \<lparr> titleDiv = Some None, artistLinks = [Some ''Avicii''] \<rparr>"

definition spaced_row :: row where
  "spaced_row =
     \<lparr> titleDiv = Some (Some ([CHR 0x09, CHR 0x20] @ ''Wake Me Up'' @
                               [CHR 0xA0, CHR 0x0A, CHR 0x0D, CHR 0x0B, CHR 0x0C])),
       artistLinks = [Some (''  Avicii''), Some (''Aloe Blacc '' @ [CHR 0x0A])] \<rparr>"

definition untitled_duo_row :: row where
  "untitled_duo_row = \<lparr> titleDiv = None, artistLinks = [Some ''DVBBS '', Some '' Borgeous''] \<rparr>"

definition blank_title_row :: row where
  "blank_title_row = \<lparr> titleDiv = Some (Some []), artistLinks = [Some ''X''] \<rparr>"

definition solo_row :: row where
  "solo_row = \<lparr> titleDiv = Some (Some ''Intro''), artistLinks = [] \<rparr>"

text \<open>A playlist of 37 songs of which eight more are materialised by every scroll.\<close>

definition growing_rows :: "nat \<Rightarrow> row list" where
  "growing_rows k = replicate (min (8 * k) 37) song_row"

text \<open>A page that shows nothing during the first four rounds and 37 rows from round 5 on.\<close>

definition late_rows :: "nat \<Rightarrow> row list" where
  "late_rows k = (if k \<le> 4 then [] else replicate 37 song_row)"

text \<open>A page on which nothing is ever materialised, and one that shows 12 rows at once.\<close>

definition no_rows :: "nat \<Rightarrow> row list" where
  "no_rows k = []"

definition twelve_rows :: "nat \<Rightarrow> row list" where
  "twelve_rows k = replicate 12 song_row"

text \<open>
  A page that has the button but no scroll container, shown with one materialised row;
  a page that has a header and no button yet; and the effects of two cycles written out.
\<close>

definition no_rows_effects :: "event list" where
  "no_rows_effects =
     [SetBtnText ''Exporting...'', SetBtnDisabled True,
      ScrollTo, Sleep 700, ScrollTo, Sleep 700, ScrollTo, Sleep 700, ScrollTo, Sleep 700,
      CallExtractSongs, Alert noSongsMsg, SetBtnText ''Export Songs'', SetBtnDisabled False]"

definition other_page_effects :: "event list" where
  "other_page_effects =
     [SetBtnText ''Exporting...'', SetBtnDisabled True,
      Alert containerNotFoundMsg,
      CallExtractSongs,
      GM_setClipboard ''Tsunami - DVBBS, Borgeous'',
      DownloadFile ''spotify_songs.txt'' ''Tsunami - DVBBS, Borgeous'',
      Alert (exportedMsg 1),
      SetBtnText ''Export Songs'', SetBtnDisabled False]"

definition other_page :: page where
  "other_page =
     \<lparr> entityHeader = False, headerTag = True, exportButtons = [example_button],
       presentationDiv = False, playlistTracklist = False, trackListDiv = False,
       gmClipboard = True \<rparr>"

definition one_row :: "nat \<Rightarrow> row list" where
  "one_row k = [song_row]"

definition fresh_page :: page where
  "fresh_page =
     \<lparr> entityHeader = True, headerTag = True, exportButtons = [],
       presentationDiv = True, playlistTracklist = False, trackListDiv = False,
       gmClipboard = False \<rparr>"



text \<open>A list that grows by one row in every round.\<close>

definition endless_rows :: "nat \<Rightarrow> row list" where
  "endless_rows k = replicate k song_row"

declare scroll_loop.simps [simp del]
declare string_of_nat.simps [simp del]

section \<open>The loop and the observed counts\<close>

lemma streak_le: "streak ra k \<le> k"
  by (induction k) simp_all

lemma stable_at_iff: "stable_at ra k \<longleftrightarrow> 4 \<le> streak ra k"
proof (cases "k < 4")
  case True
  have "streak ra k \<le> k" by (rule streak_le)
  with True show ?thesis by (simp add: stable_at_def)
next
  case False
  then have "k = Suc (Suc (Suc (Suc (k - 4))))" by arith
  then obtain m where k: "k = Suc (Suc (Suc (Suc m)))" ..
  show ?thesis
    unfolding k stable_at_def by auto
qed

lemma rounds_replicate:
  "scroll_rounds (concat (replicate n [ScrollTo, Sleep 700])) = n"
  by (induction n) (simp_all add: scroll_rounds_def)

lemma loop_body:
  assumes "i < 100"
  shows "scroll_loop ra i (observed ra i) (streak ra i) =
     [ScrollTo, Sleep 700] @
       (if 3 < streak ra (Suc i) then []
        else scroll_loop ra (Suc i) (observed ra (Suc i)) (streak ra (Suc i)))"
proof (cases "observed ra (Suc i) = observed ra i")
  case True
  then have "length (ra (Suc i)) = observed ra i" by (simp add: observed_def)
  with assms True show ?thesis
    by (subst scroll_loop.simps) (simp add: observed_def)
next
  case False
  then have "length (ra (Suc i)) \<noteq> observed ra i" by (simp add: observed_def)
  with assms False show ?thesis
    by (subst scroll_loop.simps) (simp add: observed_def)
qed

lemma loop_stop:
  assumes "k - i = d" "i \<le> k" "k < 100"
    "\<forall>j. i < j \<and> j \<le> k \<longrightarrow> streak ra j \<le> 3" "3 < streak ra (Suc k)"
  shows "scroll_loop ra i (observed ra i) (streak ra i) =
     concat (replicate (Suc k - i) [ScrollTo, Sleep 700])"
  using assms
proof (induction d arbitrary: i)
  case 0
  then have ik: "i = k" by simp
  with 0 show ?case by (simp add: loop_body del: streak.simps)
next
  case (Suc d)
  then have lt: "i < k" and i100: "i < 100" by auto
  have s3: "\<not> 3 < streak ra (Suc i)"
    using Suc.prems(4) lt by (simp add: not_less del: streak.simps)
  have step: "scroll_loop ra (Suc i) (observed ra (Suc i)) (streak ra (Suc i))
      = concat (replicate (Suc k - Suc i) [ScrollTo, Sleep 700])"
    using Suc.prems lt by (intro Suc.IH) auto
  have rep: "Suc k - i = Suc (Suc k - Suc i)" using lt by arith
  show ?case
    unfolding loop_body [OF i100] rep using s3 step by (simp del: streak.simps)
qed

lemma loop_cap:
  assumes "100 - i = d" "i \<le> 100"
    "\<forall>j. i < j \<and> j \<le> 100 \<longrightarrow> streak ra j \<le> 3"
  shows "scroll_loop ra i (observed ra i) (streak ra i) =
     concat (replicate (100 - i) [ScrollTo, Sleep 700])"
  using assms
proof (induction d arbitrary: i)
  case 0
  then show ?case by (subst scroll_loop.simps) simp
next
  case (Suc d)
  then have i100: "i < 100" by auto
  have s3: "\<not> 3 < streak ra (Suc i)"
    using Suc.prems(3) i100 by (simp add: not_less del: streak.simps)
  have step: "scroll_loop ra (Suc i) (observed ra (Suc i)) (streak ra (Suc i))
      = concat (replicate (100 - Suc i) [ScrollTo, Sleep 700])"
    using Suc.prems i100 by (intro Suc.IH) auto
  have rep: "100 - i = Suc (100 - Suc i)" using i100 by arith
  show ?case
    unfolding loop_body [OF i100] rep using s3 step by (simp del: streak.simps)
qed

lemma scroll_loop_stable:
  assumes "k \<le> 100" "stable_at ra k" "\<forall>j<k. \<not> stable_at ra j"
  shows "scroll_loop ra 0 0 0 = concat (replicate k [ScrollTo, Sleep 700])"
proof -
  from assms(2) have k4: "4 \<le> k" by (simp add: stable_at_def)
  then obtain k' where k: "k = Suc k'" by (cases k) auto
  have a: "\<forall>j. 0 < j \<and> j \<le> k' \<longrightarrow> streak ra j \<le> 3"
  proof (intro allI impI)
    fix j assume "0 < j \<and> j \<le> k'"
    then have "j < k" using k by simp
    with assms(3) have "\<not> 4 \<le> streak ra j" by (simp add: stable_at_iff)
    then show "streak ra j \<le> 3" by arith
  qed
  have b: "3 < streak ra (Suc k')"
    using assms(2) k by (simp add: stable_at_iff del: streak.simps)
  have "scroll_loop ra 0 (observed ra 0) (streak ra 0) =
      concat (replicate (Suc k' - 0) [ScrollTo, Sleep 700])"
    using assms(1) k a b by (intro loop_stop [where d = k']) auto
  then show ?thesis by (simp add: k observed_def)
qed

lemma scroll_loop_capped:
  assumes "\<forall>j\<le>100. \<not> stable_at ra j"
  shows "scroll_loop ra 0 0 0 = concat (replicate 100 [ScrollTo, Sleep 700])"
proof -
  have a: "\<forall>j. 0 < j \<and> j \<le> 100 \<longrightarrow> streak ra j \<le> 3"
  proof (intro allI impI)
    fix j :: nat assume "0 < j \<and> j \<le> 100"
    with assms have "\<not> 4 \<le> streak ra j" by (simp add: stable_at_iff)
    then show "streak ra j \<le> 3" by arith
  qed
  have "scroll_loop ra 0 (observed ra 0) (streak ra 0) =
      concat (replicate (100 - 0) [ScrollTo, Sleep 700])"
    using a by (intro loop_cap [where d = 100]) auto
  then show ?thesis by (simp add: observed_def)
qed

section \<open>Effects of an export cycle\<close>

lemma scroll_loop_events: "set (scroll_loop ra i l s) \<subseteq> {ScrollTo, Sleep 700}"
proof (induction ra i l s rule: scroll_loop.induct)
  case (1 ra i l s)
  show ?case
  proof (cases "i < 100")
    case False
    then show ?thesis by (subst scroll_loop.simps) simp
  next
    case True
    note lt = this
    show ?thesis
    proof (cases "length (ra (Suc i)) = l")
      case True
      note eq = this
      show ?thesis
      proof (cases "3 < Suc s")
        case True
        with lt eq show ?thesis by (subst scroll_loop.simps) simp
      next
        case False
        with lt eq "1.IH"(1) [OF lt refl eq False] show ?thesis
          by (subst scroll_loop.simps) simp
      qed
    next
      case False
      with lt "1.IH"(2) [OF lt refl False] show ?thesis
        by (subst scroll_loop.simps) simp
    qed
  qed
qed

lemma scrolled_events:
  "set (scrollToLoadAllSongs p ra) \<subseteq> {ScrollTo, Sleep 700, Alert containerNotFoundMsg}"
  using scroll_loop_events [of ra 0 0 0] by (auto simp: scrollToLoadAllSongs_def)

lemma btn_after_append: "btn_after b (xs @ ys) = btn_after (btn_after b xs) ys"
  by (simp add: btn_after_def)

lemma btn_after_inert:
  "\<forall>e\<in>set evs. (\<forall>s. e \<noteq> SetBtnText s) \<and> (\<forall>d. e \<noteq> SetBtnDisabled d) \<Longrightarrow> btn_after b evs = b"
proof (induction evs)
  case Nil
  show ?case by (simp add: btn_after_def)
next
  case (Cons e evs)
  then have "btn_effect e b = b" by (cases e) auto
  with Cons show ?case by (simp add: btn_after_def)
qed

lemma btn_after_scrolled: "btn_after b (scrollToLoadAllSongs p ra) = b"
  using scrolled_events [of p ra] by (intro btn_after_inert) auto

lemma btn_after_finish:
  "btn_after b (exportSongs_finish p songs) = b\<lparr>textContent := ''Export Songs'', disabled := False\<rparr>"
  by (simp add: exportSongs_finish_def btn_after_def Let_def)

lemma exportSongs_result:
  assumes "getExportBtn p = Some b"
  shows "exportSongs p ra =
     Inr (set_btn p (b\<lparr>textContent := ''Export Songs'', disabled := False\<rparr>),
          [SetBtnText ''Exporting...'', SetBtnDisabled True] @ scrollToLoadAllSongs p ra @
          [CallExtractSongs] @
          exportSongs_finish p
            (extractSongs (ra (scroll_rounds (scrollToLoadAllSongs p ra)))))"
proof -
  have "btn_after b ([SetBtnText ''Exporting...'', SetBtnDisabled True] @ scrollToLoadAllSongs p ra @
          [CallExtractSongs] @ exportSongs_finish p songs)
        = b\<lparr>textContent := ''Export Songs'', disabled := False\<rparr>" for songs
    unfolding btn_after_append btn_after_scrolled btn_after_finish
    by (simp add: btn_after_def)
  with assms show ?thesis by (simp add: exportSongs_def Let_def)
qed

lemma rounds_append: "scroll_rounds (xs @ ys) = scroll_rounds xs + scroll_rounds ys"
  by (simp add: scroll_rounds_def)

lemma rounds_finish: "scroll_rounds (exportSongs_finish p songs) = 0"
  by (simp add: scroll_rounds_def exportSongs_finish_def Let_def)

lemma calls_append: "extract_calls (xs @ ys) = extract_calls xs + extract_calls ys"
  by (simp add: extract_calls_def)

lemma calls_finish: "extract_calls (exportSongs_finish p songs) = 0"
  by (simp add: extract_calls_def exportSongs_finish_def Let_def)

lemma calls_scrolled: "extract_calls (scrollToLoadAllSongs p ra) = 0"
proof -
  have "\<forall>e\<in>set (scrollToLoadAllSongs p ra). e \<noteq> CallExtractSongs"
    using scrolled_events [of p ra] by auto
  then show ?thesis by (simp add: extract_calls_def filter_empty_conv)
qed

lemma rounds_Cons:
  "scroll_rounds (e # es) = (if e = ScrollTo then Suc (scroll_rounds es) else scroll_rounds es)"
  by (simp add: scroll_rounds_def)

lemma calls_Cons:
  "extract_calls (e # es) = (if e = CallExtractSongs then Suc (extract_calls es) else extract_calls es)"
  by (simp add: extract_calls_def)

lemma export_rounds:
  "scroll_rounds ([SetBtnText t, SetBtnDisabled d] @ scrolled @ [CallExtractSongs] @
      exportSongs_finish p songs) = scroll_rounds scrolled"
  by (simp add: rounds_append rounds_Cons rounds_finish)

lemma export_calls:
  "extract_calls ([SetBtnText t, SetBtnDisabled d] @ scrollToLoadAllSongs p ra @ [CallExtractSongs] @
      exportSongs_finish p songs) = 1"
  by (simp add: calls_append calls_Cons calls_finish calls_scrolled)

lemma scenario_first_stable:
  assumes eq: "length (ra 5) = c" "length (ra 6) = c" "length (ra 7) = c"
      "length (ra 8) = c" "length (ra 9) = c"
    and ne: "length (ra 4) \<noteq> c"
    and nz: "\<not> (length (ra 1) = 0 \<and> length (ra 2) = 0 \<and> length (ra 3) = 0 \<and> length (ra 4) = 0)"
  shows "stable_at ra 9" and "\<forall>j<9. \<not> stable_at ra j"
proof -
  show "stable_at ra 9" using eq by (simp add: stable_at_def observed_def)
  show "\<forall>j<9. \<not> stable_at ra j"
  proof (intro allI impI)
    fix j :: nat assume "j < 9"
    then consider "j < 4" | "j = 4" | "j = 5" | "j = 6" | "j = 7" | "j = 8" by arith
    then show "\<not> stable_at ra j"
    proof cases
      case 1 then show ?thesis by (simp add: stable_at_def)
    next
      case 2 with nz show ?thesis by (auto simp: stable_at_def observed_def)
    next
      case 3 with eq ne show ?thesis by (simp add: stable_at_def observed_def)
    next
      case 4 with eq ne show ?thesis by (simp add: stable_at_def observed_def)
    next
      case 5 with eq ne show ?thesis by (simp add: stable_at_def observed_def)
    next
      case 6 with eq ne show ?thesis by (simp add: stable_at_def observed_def)
    qed
  qed
qed

lemma export_after_rounds_eq:
  assumes "getExportBtn p = Some b"
    and "scrollToLoadAllSongs p ra = concat (replicate k [ScrollTo, Sleep 700])"
  shows "exportSongs p ra =
     Inr (set_btn p (b\<lparr>textContent := ''Export Songs'', disabled := False\<rparr>),
          [SetBtnText ''Exporting...'', SetBtnDisabled True] @
          concat (replicate k [ScrollTo, Sleep 700]) @ [CallExtractSongs] @
          exportSongs_finish p (extractSongs (ra k)))"
  using exportSongs_result [OF assms(1), of ra] by (simp only: assms(2) rounds_replicate)

lemma export_after_roundsI:
  assumes "getExportBtn p = Some b"
    and sc: "scrollToLoadAllSongs p ra = concat (replicate k [ScrollTo, Sleep 700])"
  shows "export_after_rounds p ra k"
proof -
  have ex: "exportSongs p ra =
     Inr (set_btn p (b\<lparr>textContent := ''Export Songs'', disabled := False\<rparr>),
          [SetBtnText ''Exporting...'', SetBtnDisabled True] @
          concat (replicate k [ScrollTo, Sleep 700]) @ [CallExtractSongs] @
          exportSongs_finish p (extractSongs (ra k)))"
    using assms by (rule export_after_rounds_eq)
  have r: "scroll_rounds ([SetBtnText ''Exporting...'', SetBtnDisabled True] @
          concat (replicate k [ScrollTo, Sleep 700]) @ [CallExtractSongs] @
          exportSongs_finish p (extractSongs (ra k))) = k"
    by (simp only: export_rounds rounds_replicate)
  have c: "extract_calls ([SetBtnText ''Exporting...'', SetBtnDisabled True] @
          concat (replicate k [ScrollTo, Sleep 700]) @ [CallExtractSongs] @
          exportSongs_finish p (extractSongs (ra k))) = 1"
    using export_calls [of "''Exporting...''" True p ra "extractSongs (ra k)"]
    by (simp only: sc)
  show ?thesis
    unfolding export_after_rounds_def using sc r c by (simp only: ex sum.case prod.case simp_thms)
qed

lemma first_stable_rounds:
  assumes "scrollContainer p" and "first_stable_round ra k"
  shows "scrollToLoadAllSongs p ra = concat (replicate k [ScrollTo, Sleep 700])"
proof -
  from assms(2) have "k \<le> 100" "stable_at ra k" "\<forall>j<k. \<not> stable_at ra j"
    by (simp_all add: first_stable_round_def list_all_iff)
  then have "scroll_loop ra 0 0 0 = concat (replicate k [ScrollTo, Sleep 700])"
    by (rule scroll_loop_stable)
  with assms(1) show ?thesis by (simp add: scrollToLoadAllSongs_def)
qed

lemma never_stable_rounds:
  assumes "scrollContainer p" and "never_stable ra"
  shows "scrollToLoadAllSongs p ra = concat (replicate 100 [ScrollTo, Sleep 700])"
proof -
  from assms(2) have "\<forall>j\<le>100. \<not> stable_at ra j"
    by (simp add: never_stable_def list_all_iff less_Suc_eq_le)
  then have "scroll_loop ra 0 0 0 = concat (replicate 100 [ScrollTo, Sleep 700])"
    by (rule scroll_loop_capped)
  with assms(1) show ?thesis by (simp add: scrollToLoadAllSongs_def)
qed

lemma playlist_page_container: "scrollContainer playlist_page"
  by (simp add: scrollContainer_def playlist_page_def)

lemma playlist_page_button: "getExportBtn playlist_page = Some example_button"
  by (simp add: getExportBtn_def playlist_page_def)

lemma endless_rows_never_stable: "never_stable endless_rows"
  by (auto simp: never_stable_def list_all_iff stable_at_def observed_def endless_rows_def)

section \<open>What extraction returns\<close>

lemma map_text_trim_eq:
  "map_text_trim as = (if None \<in> set as then Inl TypeError else Inr (map node_text as))"
  by (induction as) (auto simp: text_trim_def node_text_def split: option.splits)

lemma read_row_eq:
  "read_row r = (if raises r then Inl TypeError else Inr (record_line r))"
  by (auto simp: read_row_def row_title_def row_artists_def raises_def record_line_def
        record_title_def map_text_trim_eq text_trim_def node_text_def split: option.splits)

lemma fold_extract_step:
  "fold extract_step rows songs = songs @ map record_line (filter (\<lambda>r. \<not> raises r) rows)"
  by (induction rows arbitrary: songs) (simp_all add: extract_step_def read_row_eq)

lemma extractSongs_eq:
  "extractSongs rows = map record_line (filter (\<lambda>r. \<not> raises r) rows)"
  by (simp add: extractSongs_def fold_extract_step)

lemma rev_dropWhile_takeWhile:
  "xs = rev (dropWhile P (rev xs)) @ rev (takeWhile P (rev xs))"
proof -
  have "rev (takeWhile P (rev xs) @ dropWhile P (rev xs)) =
      rev (dropWhile P (rev xs)) @ rev (takeWhile P (rev xs))"
    by (rule rev_append)
  then show ?thesis by (simp only: takeWhile_dropWhile_id rev_rev_ident)
qed

lemma map_text_trim_Some: "map_text_trim (map Some names) = Inr (map trim names)"
  by (induction names) (simp_all add: text_trim_def)

section \<open>The export cycle and its button\<close>

lemma digit_value: "d < 10 \<Longrightarrow> of_char (digit_char d) - 48 = d"
proof -
  assume "d < 10"
  then consider "d = 0" | "d = 1" | "d = 2" | "d = 3" | "d = 4" | "d = 5" | "d = 6"
    | "d = 7" | "d = 8" | "d = 9" by atomize_elim arith
  then show ?thesis by cases (simp_all add: digit_char_def)
qed

lemma nat_of_digits_snoc:
  "nat_of_digits (ds @ [c]) = 10 * nat_of_digits ds + (of_char c - 48)"
  by (simp add: nat_of_digits_def)

lemma nat_of_digits_string_of_nat: "nat_of_digits (string_of_nat n) = n"
proof (induction n rule: string_of_nat.induct)
  case (1 n)
  show ?case
  proof (cases "n < 10")
    case True
    then show ?thesis
      by (subst string_of_nat.simps) (simp add: nat_of_digits_def digit_value)
  next
    case False
    then have "nat_of_digits (string_of_nat (n div 10)) = n div 10" by (rule "1.IH")
    moreover have "of_char (digit_char (n mod 10)) - 48 = n mod 10" by (rule digit_value) simp
    ultimately show ?thesis using False
      by (subst string_of_nat.simps) (simp add: nat_of_digits_snoc)
  qed
qed

lemma digit_char_digit: "d < 10 \<Longrightarrow> digit_char d \<in> set ''0123456789''"
proof -
  assume "d < 10"
  then consider "d = 0" | "d = 1" | "d = 2" | "d = 3" | "d = 4" | "d = 5" | "d = 6"
    | "d = 7" | "d = 8" | "d = 9" by atomize_elim arith
  then show ?thesis by cases (simp_all add: digit_char_def)
qed

lemma string_of_nat_digits:
  "string_of_nat n \<noteq> [] \<and> list_all (\<lambda>c. c \<in> set ''0123456789'') (string_of_nat n)"
proof (induction n rule: string_of_nat.induct)
  case (1 n)
  show ?case
  proof (cases "n < 10")
    case True
    then have "digit_char n \<in> set ''0123456789''" by (rule digit_char_digit)
    with True show ?thesis by (subst (1 2) string_of_nat.simps) simp
  next
    case False
    then have ih: "list_all (\<lambda>c. c \<in> set ''0123456789'') (string_of_nat (n div 10))"
      using "1.IH" by simp
    have "digit_char (n mod 10) \<in> set ''0123456789''" by (rule digit_char_digit) simp
    with False ih show ?thesis by (subst (1 2) string_of_nat.simps) simp
  qed
qed

lemma messages_differ:
  "exportedMsg n \<noteq> noSongsMsg" "exportedMsg n \<noteq> containerNotFoundMsg"
  "noSongsMsg \<noteq> containerNotFoundMsg"
  by (simp_all add: exportedMsg_def noSongsMsg_def containerNotFoundMsg_def)

lemma exportSongs_InrD:
  assumes "exportSongs p ra = Inr (p', effects)"
  obtains b where "getExportBtn p = Some b"
    and "p' = set_btn p (idle b)"
    and "effects = [SetBtnText ''Exporting...'', SetBtnDisabled True] @ scrollToLoadAllSongs p ra @
          [CallExtractSongs] @
          exportSongs_finish p (extractSongs (ra (scroll_rounds (scrollToLoadAllSongs p ra))))"
    and "scroll_rounds effects = scroll_rounds (scrollToLoadAllSongs p ra)"
proof (cases "getExportBtn p")
  case None
  with assms show ?thesis by (simp add: exportSongs_def)
next
  case (Some b)
  from exportSongs_result [OF Some, of ra] assms
  have p': "p' = set_btn p (idle b)"
    and e: "effects = [SetBtnText ''Exporting...'', SetBtnDisabled True] @ scrollToLoadAllSongs p ra @
          [CallExtractSongs] @
          exportSongs_finish p (extractSongs (ra (scroll_rounds (scrollToLoadAllSongs p ra))))"
    by (simp_all add: idle_def)
  have "scroll_rounds effects = scroll_rounds (scrollToLoadAllSongs p ra)"
    unfolding e by (rule export_rounds)
  with Some p' e show ?thesis by (rule that)
qed


lemma twelve_rows_songs:
  "extractSongs (twelve_rows k) = replicate 12 ''Tsunami - DVBBS, Borgeous''"
proof -
  have "\<not> raises song_row" by (simp add: raises_def song_row_def)
  moreover have "record_line song_row = ''Tsunami - DVBBS, Borgeous''"
    by (simp add: record_line_def record_title_def node_text_def song_row_def trim_def
        is_white_space_def)
  ultimately show ?thesis by (simp add: extractSongs_eq twelve_rows_def)
qed











lemma idle_example_button: "idle example_button = example_button"
  by (simp add: idle_def example_button_def newExportButton_def)

lemma set_btn_playlist_page: "set_btn playlist_page example_button = playlist_page"
  by (simp add: set_btn_def playlist_page_def)


lemma other_page_no_container: "\<not> scrollContainer other_page"
  by (simp add: scrollContainer_def other_page_def)

lemma other_page_button: "getExportBtn other_page = Some example_button"
  by (simp add: getExportBtn_def other_page_def)

lemma one_row_songs: "extractSongs (one_row k) = [''Tsunami - DVBBS, Borgeous'']"
  by (simp add: extractSongs_eq raises_def record_line_def record_title_def node_text_def
      one_row_def song_row_def trim_def is_white_space_def)

lemma first_stable_exists:
  assumes "stable_at ra m" and "m \<le> 100"
  shows "\<exists>k\<le>m. first_stable_round ra k"
proof -
  define k where "k = (LEAST j. stable_at ra j)"
  have s: "stable_at ra k" unfolding k_def using assms(1) by (rule LeastI)
  have le: "k \<le> m" unfolding k_def using assms(1) by (rule Least_le)
  have "\<not> stable_at ra j" if "j < k" for j
    using that unfolding k_def by (rule not_less_Least)
  with s le assms(2) have "first_stable_round ra k"
    by (simp add: first_stable_round_def list_all_iff)
  with le show ?thesis by blast
qed

lemma stable_before_rounds:
  assumes "scrollContainer p" and "stable_at ra m" and "m \<le> 100"
  shows "scroll_rounds (scrollToLoadAllSongs p ra) \<le> m"
proof -
  from assms(2,3) obtain k where k: "k \<le> m" "first_stable_round ra k"
    using first_stable_exists by blast
  from assms(1) k(2)
  have "scrollToLoadAllSongs p ra = concat (replicate k [ScrollTo, Sleep 700])"
    by (rule first_stable_rounds)
  then have "scroll_rounds (scrollToLoadAllSongs p ra) = k" by (simp only: rounds_replicate)
  with k(1) show ?thesis by simp
qed

lemma export_after_rounds_rounds:
  "export_after_rounds p ra k \<Longrightarrow> scroll_rounds (scrollToLoadAllSongs p ra) = k"
  by (simp add: export_after_rounds_def rounds_replicate)

lemma late_rows_first_stable: "first_stable_round late_rows 4"
  by (simp add: first_stable_round_def list_all_iff stable_at_def observed_def late_rows_def)

lemma late_rows_export: "exportSongs playlist_page late_rows = Inr (playlist_page, no_rows_effects)"
proof -
  from playlist_page_container late_rows_first_stable
  have sc: "scrollToLoadAllSongs playlist_page late_rows = concat (replicate 4 [ScrollTo, Sleep 700])"
    by (rule first_stable_rounds)
  have c: "concat (replicate 4 [ScrollTo, Sleep 700]) =
      [ScrollTo, Sleep 700, ScrollTo, Sleep 700, ScrollTo, Sleep 700, ScrollTo, Sleep 700]"
    by (simp add: numeral_eq_Suc)
  show ?thesis
    unfolding exportSongs_result [OF playlist_page_button] sc rounds_replicate
      idle_def [symmetric] idle_example_button set_btn_playlist_page
    by (simp add: c extractSongs_def late_rows_def exportSongs_finish_def no_rows_effects_def)
qed

section \<open>Claims about the collection loop\<close>

text \<open>
  C10. \<open>lastCount\<close> starts at 0, so a first reading of 0 rows already counts as "same
  as before". When every reading is 0 the loop stops after 4 rounds; when every reading
  is the same non-zero count \<open>c\<close> from round 1 on, it stops after 5 rounds. The
  zero-count case ends one round earlier than any other constant count.
\<close>

theorem zero_count_stops_one_round_earlier:
  assumes "scrollContainer p"
  shows "((\<forall>k. 1 \<le> k \<and> k \<le> 4 \<longrightarrow> length (rows_after k) = 0) \<longrightarrow>
            scroll_rounds (scrollToLoadAllSongs p rows_after) = 4) \<and>
         (c \<noteq> 0 \<and> (\<forall>k. 1 \<le> k \<and> k \<le> 5 \<longrightarrow> length (rows_after k) = c) \<longrightarrow>
            scroll_rounds (scrollToLoadAllSongs p rows_after) = 5)"
proof (intro conjI impI)
  assume z: "\<forall>k. 1 \<le> k \<and> k \<le> 4 \<longrightarrow> length (rows_after k) = 0"
  have s: "stable_at rows_after 4" using z by (simp add: stable_at_def observed_def)
  have n: "\<forall>j<4. \<not> stable_at rows_after j" by (simp add: stable_at_def)
  have "scroll_loop rows_after 0 0 0 = concat (replicate 4 [ScrollTo, Sleep 700])"
    using s n by (intro scroll_loop_stable) simp_all
  with assms show "scroll_rounds (scrollToLoadAllSongs p rows_after) = 4"
    by (simp only: scrollToLoadAllSongs_def rounds_replicate simp_thms if_False)
next
  assume "c \<noteq> 0 \<and> (\<forall>k. 1 \<le> k \<and> k \<le> 5 \<longrightarrow> length (rows_after k) = c)"
  then have c: "c \<noteq> 0" and z: "\<forall>k. 1 \<le> k \<and> k \<le> 5 \<longrightarrow> length (rows_after k) = c" by simp_all
  have s: "stable_at rows_after 5" using z by (simp add: stable_at_def observed_def)
  have n: "\<forall>j<5. \<not> stable_at rows_after j"
  proof (intro allI impI)
    fix j :: nat assume "j < 5"
    then consider "j < 4" | "j = 4" by arith
    then show "\<not> stable_at rows_after j"
    proof cases
      case 1 then show ?thesis by (simp add: stable_at_def)
    next
      case 2 with c z show ?thesis by (simp add: stable_at_def observed_def)
    qed
  qed
  have "scroll_loop rows_after 0 0 0 = concat (replicate 5 [ScrollTo, Sleep 700])"
    using s n by (intro scroll_loop_stable) simp_all
  with assms show "scroll_rounds (scrollToLoadAllSongs p rows_after) = 5"
    by (simp only: scrollToLoadAllSongs_def rounds_replicate simp_thms if_False)
qed

theorem zero_count_stops_one_round_earlier_witness:
  "scroll_rounds (scrollToLoadAllSongs playlist_page no_rows) = 4 \<and>
   scroll_rounds (scrollToLoadAllSongs playlist_page twelve_rows) = 5"
proof -
  have p: "scrollContainer playlist_page"
    by (simp add: scrollContainer_def playlist_page_def)
  have z: "\<forall>k. 1 \<le> k \<and> k \<le> 4 \<longrightarrow> length (no_rows k) = 0"
    by (simp add: no_rows_def)
  have t: "(12::nat) \<noteq> 0 \<and> (\<forall>k. 1 \<le> k \<and> k \<le> 5 \<longrightarrow> length (twelve_rows k) = 12)"
    by (simp add: twelve_rows_def)
  from zero_count_stops_one_round_earlier [OF p, of no_rows 12] z
  have a: "scroll_rounds (scrollToLoadAllSongs playlist_page no_rows) = 4" by blast
  from zero_count_stops_one_round_earlier [OF p, of twelve_rows 12] t
  have b: "scroll_rounds (scrollToLoadAllSongs playlist_page twelve_rows) = 5" by blast
  from a b show ?thesis by simp
qed


text \<open>
  C1, as stated, fails on the script. Counts that are equal at rounds 5 through 9 do not
  make the loop stop after round 9 when it has stopped before: \<open>lastCount\<close> starts at 0,
  so on a page that shows nothing during rounds 1 to 4 and 37 rows from round 5 on, the
  loop stops after round 4 and the cycle reports that no songs were found.
\<close>

theorem late_rows_counterexample:
  "length (late_rows 5) = 37 \<and> length (late_rows 6) = 37 \<and> length (late_rows 7) = 37 \<and>
   length (late_rows 8) = 37 \<and> length (late_rows 9) = 37 \<and>
   scroll_rounds (scrollToLoadAllSongs playlist_page late_rows) = 4 \<and>
   exportSongs playlist_page late_rows = Inr (playlist_page, no_rows_effects) \<and>
   \<not> export_after_rounds playlist_page late_rows 9"
proof -
  from playlist_page_container late_rows_first_stable
  have "scrollToLoadAllSongs playlist_page late_rows = concat (replicate 4 [ScrollTo, Sleep 700])"
    by (rule first_stable_rounds)
  then have r: "scroll_rounds (scrollToLoadAllSongs playlist_page late_rows) = 4"
    by (simp only: rounds_replicate)
  have "\<not> export_after_rounds playlist_page late_rows 9"
  proof
    assume "export_after_rounds playlist_page late_rows 9"
    then have "scroll_rounds (scrollToLoadAllSongs playlist_page late_rows) = 9"
      by (rule export_after_rounds_rounds)
    with r show False by simp
  qed
  with r late_rows_export show ?thesis by (simp add: late_rows_def)
qed

text \<open>
  C1, amended. The readings are stable at a round exactly when the same-count streak
  (\<open>sameCountTimes\<close>) exceeds 3 there, that is, when the count has been the same for more
  than four consecutive readings (the initial \<open>lastCount = 0\<close> counting as a reading).
  Whenever this happens within the 100-round cap, the loop ends at the first round \<open>k\<close> at
  which it does: it performs exactly \<open>k\<close> scroll triggers and none afterwards, and
  \<open>extractSongs\<close> is then called exactly once, on the rows materialised after round \<open>k\<close>.
  When the counts of rounds 5 to 9 are equal, the loop stops after round 9, with one
  call of \<open>extractSongs\<close> after it, exactly when this streak starts at round 5: round 4
  read a different count, and rounds 1 to 4 did not all read 0.
\<close>

theorem loop_stops_at_first_stable_round:
  assumes "scrollContainer p" and "getExportBtn p = Some b"
  shows "(\<forall>j. stable_at rows_after j \<longleftrightarrow> 3 < streak rows_after j) \<and>
         (first_stable_round rows_after k \<longrightarrow> export_after_rounds p rows_after k) \<and>
         (length (rows_after 5) = c \<and> length (rows_after 6) = c \<and>
          length (rows_after 7) = c \<and> length (rows_after 8) = c \<and>
          length (rows_after 9) = c \<longrightarrow>
          (export_after_rounds p rows_after 9 \<longleftrightarrow>
             length (rows_after 4) \<noteq> c \<and>
             \<not> (length (rows_after 1) = 0 \<and> length (rows_after 2) = 0 \<and>
                length (rows_after 3) = 0 \<and> length (rows_after 4) = 0)))"
proof (intro conjI impI allI)
  fix j
  have "stable_at rows_after j \<longleftrightarrow> 4 \<le> streak rows_after j" by (rule stable_at_iff)
  then show "stable_at rows_after j \<longleftrightarrow> 3 < streak rows_after j" by arith
next
  assume "first_stable_round rows_after k"
  with assms(1) have "scrollToLoadAllSongs p rows_after = concat (replicate k [ScrollTo, Sleep 700])"
    by (rule first_stable_rounds)
  with assms(2) show "export_after_rounds p rows_after k" by (rule export_after_roundsI)
next
  assume eq: "length (rows_after 5) = c \<and> length (rows_after 6) = c \<and>
          length (rows_after 7) = c \<and> length (rows_after 8) = c \<and>
          length (rows_after 9) = c"
  show "export_after_rounds p rows_after 9 \<longleftrightarrow>
             length (rows_after 4) \<noteq> c \<and>
             \<not> (length (rows_after 1) = 0 \<and> length (rows_after 2) = 0 \<and>
                length (rows_after 3) = 0 \<and> length (rows_after 4) = 0)"
  proof
    assume s: "length (rows_after 4) \<noteq> c \<and>
             \<not> (length (rows_after 1) = 0 \<and> length (rows_after 2) = 0 \<and>
                length (rows_after 3) = 0 \<and> length (rows_after 4) = 0)"
    have "stable_at rows_after 9"
      using eq s by (intro scenario_first_stable(1) [where c = c]) simp_all
    moreover have "\<forall>j<9. \<not> stable_at rows_after j"
      using eq s by (intro scenario_first_stable(2) [where c = c]) simp_all
    ultimately have "first_stable_round rows_after 9"
      by (simp add: first_stable_round_def list_all_iff)
    with assms(1)
    have "scrollToLoadAllSongs p rows_after = concat (replicate 9 [ScrollTo, Sleep 700])"
      by (rule first_stable_rounds)
    with assms(2) show "export_after_rounds p rows_after 9" by (rule export_after_roundsI)
  next
    assume "export_after_rounds p rows_after 9"
    then have r: "scroll_rounds (scrollToLoadAllSongs p rows_after) = 9"
      by (rule export_after_rounds_rounds)
    have a: "length (rows_after 4) \<noteq> c"
    proof
      assume "length (rows_after 4) = c"
      with eq have "stable_at rows_after 8" by (simp add: stable_at_def observed_def)
      with assms(1) have "scroll_rounds (scrollToLoadAllSongs p rows_after) \<le> 8"
        by (rule stable_before_rounds) simp
      with r show False by simp
    qed
    have b: "\<not> (length (rows_after 1) = 0 \<and> length (rows_after 2) = 0 \<and>
                length (rows_after 3) = 0 \<and> length (rows_after 4) = 0)"
    proof
      assume "length (rows_after 1) = 0 \<and> length (rows_after 2) = 0 \<and>
                length (rows_after 3) = 0 \<and> length (rows_after 4) = 0"
      then have "stable_at rows_after 4" by (simp add: stable_at_def observed_def)
      with assms(1) have "scroll_rounds (scrollToLoadAllSongs p rows_after) \<le> 4"
        by (rule stable_before_rounds) simp
      with r show False by simp
    qed
    from a b show "length (rows_after 4) \<noteq> c \<and>
             \<not> (length (rows_after 1) = 0 \<and> length (rows_after 2) = 0 \<and>
                length (rows_after 3) = 0 \<and> length (rows_after 4) = 0)" by simp
  qed
qed

theorem loop_stops_at_first_stable_round_witness:
  "first_stable_round growing_rows 9 \<and> length (growing_rows 5) = 37 \<and>
   length (growing_rows 9) = 37 \<and> length (growing_rows 4) = 32 \<and>
   export_after_rounds playlist_page growing_rows 9"
proof -
  have len: "length (growing_rows 5) = 37" "length (growing_rows 6) = 37"
    "length (growing_rows 7) = 37" "length (growing_rows 8) = 37"
    "length (growing_rows 9) = 37" "length (growing_rows 4) = 32"
    "length (growing_rows 3) = 24" "length (growing_rows 2) = 16" "length (growing_rows 1) = 8"
    by (simp_all add: growing_rows_def)
  have obs: "observed growing_rows 0 = 0" "observed growing_rows 1 = 8"
    "observed growing_rows 2 = 16" "observed growing_rows 3 = 24" "observed growing_rows 4 = 32"
    "observed growing_rows 5 = 37" "observed growing_rows 6 = 37" "observed growing_rows 7 = 37"
    "observed growing_rows 8 = 37" "observed growing_rows 9 = 37"
    by (simp_all add: observed_def growing_rows_def)
  have upt9: "[0..<9] = [0, 1, 2, 3, 4, 5, 6, 7, 8]" by (simp add: upt_rec)
  have f: "first_stable_round growing_rows 9"
    unfolding first_stable_round_def upt9 by (simp add: stable_at_def obs)
  from loop_stops_at_first_stable_round
    [OF playlist_page_container playlist_page_button, where rows_after = growing_rows and k = 9] f
  have 1: "export_after_rounds playlist_page growing_rows 9" by blast
  from loop_stops_at_first_stable_round
    [OF playlist_page_container playlist_page_button, where rows_after = growing_rows and c = 37]
    len
  have 2: "export_after_rounds playlist_page growing_rows 9 \<longleftrightarrow> True" by simp
  from 1 2 f len show ?thesis by simp
qed


text \<open>
  C4. When the readings never become stable within the cap, the loop performs exactly
  100 rounds and returns without raising and without an alert; \<open>extractSongs\<close> is then
  called once on the rows materialised after round 100, and the cycle reports that
  result as usual.
\<close>

theorem loop_is_capped_at_100_rounds:
  assumes "scrollContainer p" and "getExportBtn p = Some b" and "never_stable rows_after"
  shows "scroll_rounds (scrollToLoadAllSongs p rows_after) = 100 \<and>
         (\<forall>m. Alert m \<notin> set (scrollToLoadAllSongs p rows_after)) \<and>
         export_after_rounds p rows_after 100"
proof -
  from assms(1,3)
  have sc: "scrollToLoadAllSongs p rows_after = concat (replicate 100 [ScrollTo, Sleep 700])"
    by (rule never_stable_rounds)
  have "scroll_rounds (scrollToLoadAllSongs p rows_after) = 100"
    by (simp only: sc rounds_replicate)
  moreover have "\<forall>m. Alert m \<notin> set (scrollToLoadAllSongs p rows_after)"
    using assms(1) scroll_loop_events [of rows_after 0 0 0]
    by (auto simp: scrollToLoadAllSongs_def)
  moreover from assms(2) sc have "export_after_rounds p rows_after 100"
    by (rule export_after_roundsI)
  ultimately show ?thesis by simp
qed

theorem loop_is_capped_at_100_rounds_witness:
  "never_stable endless_rows \<and>
   scroll_rounds (scrollToLoadAllSongs playlist_page endless_rows) = 100 \<and>
   export_after_rounds playlist_page endless_rows 100"
  using loop_is_capped_at_100_rounds
    [OF playlist_page_container playlist_page_button endless_rows_never_stable]
    endless_rows_never_stable
  by simp


section \<open>Claims about extraction\<close>

text \<open>
  C3. Reading a row raises exactly when one of the nodes read has no text. Of \<open>N\<close> rows
  of which \<open>N - M\<close> raise, \<open>extractSongs\<close> returns \<open>M\<close> lines: the lines of the rows that
  do not raise, in the order of the rows. A raising row is skipped and the rows before
  and after it are extracted as if it were not there; \<open>extractSongs\<close> itself never raises.
\<close>

theorem extraction_skips_raising_rows:
  "extractSongs rows = map record_line (filter (\<lambda>r. \<not> raises r) rows) \<and>
   length (extractSongs rows) = length (filter (\<lambda>r. \<not> raises r) rows) \<and>
   length (extractSongs rows) + length (filter raises rows) = length rows \<and>
   (\<forall>r. read_row r = (if raises r then Inl TypeError else Inr (record_line r))) \<and>
   (raises r \<longrightarrow> extractSongs (before @ r # after) = extractSongs (before @ after))"
proof -
  have "length (filter (\<lambda>r. \<not> raises r) rows) + length (filter raises rows) = length rows"
    using sum_length_filter_compl [of raises rows] by simp
  then show ?thesis by (simp add: extractSongs_eq read_row_eq)
qed

theorem extraction_skips_raising_rows_witness:
  "raises broken_row \<and> raises null_title_row \<and>
   extractSongs [song_row, broken_row, untitled_row, null_title_row, solo_row] =
     [''Tsunami - DVBBS, Borgeous'', ''[Unknown Title] - Avicii'', ''Intro - '']"
proof -
  have b: "raises broken_row" and n: "raises null_title_row"
    and s: "\<not> raises song_row" and u: "\<not> raises untitled_row" and o: "\<not> raises solo_row"
    by (simp_all add: raises_def broken_row_def null_title_row_def song_row_def
        untitled_row_def solo_row_def)
  have l: "record_line song_row = ''Tsunami - DVBBS, Borgeous''"
    "record_line untitled_row = ''[Unknown Title] - Avicii''"
    "record_line solo_row = ''Intro - ''"
    by (simp_all add: record_line_def record_title_def node_text_def song_row_def
        untitled_row_def solo_row_def trim_def is_white_space_def)
  from extraction_skips_raising_rows
    [of "[song_row, broken_row, untitled_row, null_title_row, solo_row]" broken_row "[]" "[]"]
  have "extractSongs [song_row, broken_row, untitled_row, null_title_row, solo_row] =
     map record_line
       (filter (\<lambda>r. \<not> raises r) [song_row, broken_row, untitled_row, null_title_row, solo_row])"
    by blast
  with b n s u o l show ?thesis by simp
qed

text \<open>
  C5. For every row that parses to the title \<open>T\<close> and the artists \<open>[A1, A2]\<close>, the line is
  exactly \<open>"T - A1, A2"\<close>; for every row that parses to the title \<open>T\<close> and no artist, the
  row is still included and its line is exactly \<open>"T - "\<close>. The parsed title of a row with
  title text \<open>t\<close> is \<open>trim t\<close>, and the parsed artists are the trimmed texts of the artist
  links, in order; \<open>trim t\<close> is \<open>t\<close> without the white space at its two ends.
\<close>

theorem line_of_parsed_fields:
  "(row_title r = Inr T \<and> row_artists r = Inr [A1, A2] \<longrightarrow>
      read_row r = Inr (T @ '' - '' @ A1 @ '', '' @ A2) \<and>
      extractSongs [r] = [T @ '' - '' @ A1 @ '', '' @ A2]) \<and>
   (row_title r = Inr T \<and> row_artists r = Inr [] \<longrightarrow>
      read_row r = Inr (T @ '' - '') \<and> extractSongs [r] = [T @ '' - '']) \<and>
   (titleDiv r = Some (Some t) \<longrightarrow> row_title r = Inr (trim t)) \<and>
   (artistLinks r = [Some a1, Some a2] \<longrightarrow> row_artists r = Inr [trim a1, trim a2]) \<and>
   (artistLinks r = [] \<longrightarrow> row_artists r = Inr []) \<and>
   (\<exists>pre post. t = pre @ trim t @ post \<and> list_all is_white_space pre \<and>
      list_all is_white_space post) \<and>
   trimmed (trim t)"
proof -
  have 1: "row_title r = Inr T \<and> row_artists r = Inr names \<longrightarrow>
      read_row r = Inr (T @ '' - '' @ join '', '' names) \<and>
      extractSongs [r] = [T @ '' - '' @ join '', '' names]" for names
    by (simp add: read_row_def extractSongs_def extract_step_def)
  have 2: "titleDiv r = Some (Some t) \<longrightarrow> row_title r = Inr (trim t)"
    by (simp add: row_title_def text_trim_def)
  have 3: "artistLinks r = [Some a1, Some a2] \<longrightarrow> row_artists r = Inr [trim a1, trim a2]"
    by (simp add: row_artists_def text_trim_def)
  have 4: "artistLinks r = [] \<longrightarrow> row_artists r = Inr []"
    by (simp add: row_artists_def)
  define d where "d = dropWhile is_white_space t"
  define post where "post = rev (takeWhile is_white_space (rev d))"
  have d: "d = trim t @ post"
    unfolding trim_def d_def post_def by (rule rev_dropWhile_takeWhile)
  have "t = takeWhile is_white_space t @ d" by (simp add: d_def)
  with d have t: "t = takeWhile is_white_space t @ trim t @ post" by simp
  have a: "list_all is_white_space (takeWhile is_white_space t)"
    by (auto simp: list_all_iff dest: set_takeWhileD)
  have b: "list_all is_white_space post"
    by (auto simp: post_def list_all_iff dest: set_takeWhileD)
  from t a b have 5: "\<exists>pre post. t = pre @ trim t @ post \<and> list_all is_white_space pre \<and>
      list_all is_white_space post" by blast
  have 6: "trimmed (trim t)"
  proof (cases "trim t")
    case Nil
    then show ?thesis by (simp add: trimmed_def)
  next
    case (Cons c cs)
    define e where "e = dropWhile is_white_space (rev d)"
    have te: "trim t = rev e" by (simp add: trim_def d_def e_def)
    with Cons have ne: "e \<noteq> []" by auto
    then have "\<not> is_white_space (hd e)" unfolding e_def by (rule hd_dropWhile)
    moreover have "last (trim t) = hd e" unfolding te using ne by (simp add: last_rev)
    ultimately have l: "\<not> is_white_space (last (trim t))" by simp
    from d Cons have dc: "d = c # cs @ post" by simp
    then have "dropWhile is_white_space t \<noteq> []" by (simp add: d_def)
    then have "\<not> is_white_space (hd (dropWhile is_white_space t))" by (rule hd_dropWhile)
    moreover from dc have "hd (dropWhile is_white_space t) = c" by (simp add: d_def)
    ultimately have "\<not> is_white_space c" by simp
    with l Cons show ?thesis by (simp add: trimmed_def)
  qed
  from 1 [of "[A1, A2]"] 1 [of "[]"] 2 3 4 5 6
  show ?thesis by simp
qed

theorem line_of_parsed_fields_witness:
  "row_title spaced_row = Inr ''Wake Me Up'' \<and>
   row_artists spaced_row = Inr [''Avicii'', ''Aloe Blacc''] \<and>
   read_row spaced_row = Inr ''Wake Me Up - Avicii, Aloe Blacc'' \<and>
   extractSongs [spaced_row] = [''Wake Me Up - Avicii, Aloe Blacc''] \<and>
   extractSongs [solo_row] = [''Intro - '']"
proof -
  have t: "row_title spaced_row = Inr ''Wake Me Up''"
    by (simp add: row_title_def text_trim_def spaced_row_def trim_def is_white_space_def)
  have a: "row_artists spaced_row = Inr [''Avicii'', ''Aloe Blacc'']"
    by (simp add: row_artists_def text_trim_def spaced_row_def trim_def is_white_space_def)
  have t': "row_title solo_row = Inr ''Intro''"
    by (simp add: row_title_def text_trim_def solo_row_def trim_def is_white_space_def)
  have a': "row_artists solo_row = Inr []"
    by (simp add: row_artists_def solo_row_def)
  from line_of_parsed_fields [of spaced_row "''Wake Me Up''" "''Avicii''" "''Aloe Blacc''"] t a
  have 1: "read_row spaced_row = Inr ''Wake Me Up - Avicii, Aloe Blacc''"
    "extractSongs [spaced_row] = [''Wake Me Up - Avicii, Aloe Blacc'']" by simp_all
  from line_of_parsed_fields [of solo_row "''Intro''"] t' a'
  have 2: "extractSongs [solo_row] = [''Intro - '']" by simp
  from t a 1 2 show ?thesis by simp
qed

text \<open>
  C6. A row without a title node whose artist nodes can all be read gives the line
  \<open>"[Unknown Title] - "\<close> followed by the trimmed artist texts separated by \<open>", "\<close>:
  nothing after the dash for no artist, one text for one artist, \<open>"A1, A2"\<close> for two,
  \<open>"A1, A2, A3"\<close> for three, and so on. The sentinel stands in for an absent title node
  only: a row whose title node is present gives its trimmed title text, even when that
  text is empty, and when reading any node of the row raises (a title node or an artist
  node with \<open>null\<close> text), the row gives no line at all.
\<close>

theorem missing_title_gets_sentinel:
  "(titleDiv r = None \<and> artistLinks r = map Some names \<longrightarrow>
      read_row r = Inr (''[Unknown Title] - '' @ join '', '' (map trim names)) \<and>
      extractSongs [r] = [''[Unknown Title] - '' @ join '', '' (map trim names)]) \<and>
   (titleDiv r = None \<and> artistLinks r = [] \<longrightarrow>
      extractSongs [r] = [''[Unknown Title] - '']) \<and>
   (titleDiv r = None \<and> artistLinks r = [Some a1] \<longrightarrow>
      extractSongs [r] = [''[Unknown Title] - '' @ trim a1]) \<and>
   (titleDiv r = None \<and> artistLinks r = [Some a1, Some a2] \<longrightarrow>
      extractSongs [r] = [''[Unknown Title] - '' @ trim a1 @ '', '' @ trim a2]) \<and>
   (titleDiv r = None \<and> artistLinks r = [Some a1, Some a2, Some a3] \<longrightarrow>
      extractSongs [r] =
        [''[Unknown Title] - '' @ trim a1 @ '', '' @ trim a2 @ '', '' @ trim a3]) \<and>
   join sep (x # y # ys) = x @ sep @ join sep (y # ys) \<and>
   (titleDiv r = Some (Some t) \<and> artistLinks r = map Some names \<longrightarrow>
      read_row r = Inr (trim t @ '' - '' @ join '', '' (map trim names)) \<and>
      extractSongs [r] = [trim t @ '' - '' @ join '', '' (map trim names)]) \<and>
   (titleDiv r = Some (Some []) \<and> artistLinks r = [Some a1] \<longrightarrow>
      extractSongs [r] = ['' - '' @ trim a1]) \<and>
   (titleDiv r = Some None \<or> None \<in> set (artistLinks r) \<longrightarrow>
      read_row r = Inl TypeError \<and> extractSongs [r] = [] \<and>
      extractSongs (before @ r # after) = extractSongs (before @ after)) \<and>
   (read_row r = Inl e \<longrightarrow>
      extractSongs [r] = [] \<and>
      extractSongs (before @ r # after) = extractSongs (before @ after))"
proof -
  have e: "trim [] = []" by (simp add: trim_def)
  have 1: "titleDiv r = None \<and> artistLinks r = map Some names \<longrightarrow>
      read_row r = Inr (''[Unknown Title] - '' @ join '', '' (map trim names)) \<and>
      extractSongs [r] = [''[Unknown Title] - '' @ join '', '' (map trim names)]" for names
    by (simp add: read_row_def row_title_def row_artists_def map_text_trim_Some
        extractSongs_def extract_step_def)
  have 2: "titleDiv r = Some (Some t) \<and> artistLinks r = map Some names \<longrightarrow>
      read_row r = Inr (trim t @ '' - '' @ join '', '' (map trim names)) \<and>
      extractSongs [r] = [trim t @ '' - '' @ join '', '' (map trim names)]" for t names
    by (simp add: read_row_def row_title_def row_artists_def text_trim_def map_text_trim_Some
        extractSongs_def extract_step_def)
  have r: "titleDiv r = Some None \<or> None \<in> set (artistLinks r) \<longrightarrow> read_row r = Inl TypeError"
    by (auto simp: read_row_def row_title_def row_artists_def text_trim_def map_text_trim_eq
        split: option.splits sum.splits)
  have 4: "read_row r = Inl e \<longrightarrow>
      extractSongs [r] = [] \<and>
      extractSongs (before @ r # after) = extractSongs (before @ after)" for e
  proof
    assume "read_row r = Inl e"
    then have s: "extract_step r songs = songs" for songs by (simp add: extract_step_def)
    show "extractSongs [r] = [] \<and>
      extractSongs (before @ r # after) = extractSongs (before @ after)"
      by (simp add: extractSongs_def s)
  qed
  from r 4 [of TypeError]
  have 3: "titleDiv r = Some None \<or> None \<in> set (artistLinks r) \<longrightarrow>
      read_row r = Inl TypeError \<and> extractSongs [r] = [] \<and>
      extractSongs (before @ r # after) = extractSongs (before @ after)"
    by blast
  from 1 [of names] 1 [of "[]"] 1 [of "[a1]"] 1 [of "[a1, a2]"] 1 [of "[a1, a2, a3]"]
    2 [of t names] 2 [of "[]" "[a1]"] 3 4 [of e] e
  show ?thesis by simp
qed

theorem missing_title_gets_sentinel_witness:
  "extractSongs [untitled_row] = [''[Unknown Title] - Avicii''] \<and>
   extractSongs [untitled_duo_row] = [''[Unknown Title] - DVBBS, Borgeous''] \<and>
   extractSongs [blank_title_row] = ['' - X''] \<and>
   extractSongs [null_title_row] = [] \<and>
   extractSongs [song_row, broken_row, solo_row] = extractSongs [song_row, solo_row]"
proof -
  have u: "titleDiv untitled_row = None \<and> artistLinks untitled_row = [Some ''Avicii'']"
    by (simp add: untitled_row_def)
  have d: "titleDiv untitled_duo_row = None \<and>
      artistLinks untitled_duo_row = [Some ''DVBBS '', Some '' Borgeous'']"
    by (simp add: untitled_duo_row_def)
  have k: "titleDiv blank_title_row = Some (Some []) \<and> artistLinks blank_title_row = [Some ''X'']"
    by (simp add: blank_title_row_def)
  have t: "trim ''Avicii'' = ''Avicii''" "trim ''DVBBS '' = ''DVBBS''"
    "trim '' Borgeous'' = ''Borgeous''" "trim ''X'' = ''X''"
    by (simp_all add: trim_def is_white_space_def)
  have n: "titleDiv null_title_row = Some None \<or> None \<in> set (artistLinks null_title_row)"
    by (simp add: null_title_row_def)
  have b: "titleDiv broken_row = Some None \<or> None \<in> set (artistLinks broken_row)"
    by (simp add: broken_row_def)
  from missing_title_gets_sentinel [of untitled_row _ "''Avicii''"] u t
  have 1: "extractSongs [untitled_row] = [''[Unknown Title] - Avicii'']" by simp
  from missing_title_gets_sentinel [of untitled_duo_row _ "''DVBBS ''" "'' Borgeous''"] d t
  have 2: "extractSongs [untitled_duo_row] = [''[Unknown Title] - DVBBS, Borgeous'']" by simp
  from missing_title_gets_sentinel [of blank_title_row _ "''X''"] k t
  have 3: "extractSongs [blank_title_row] = ['' - X'']" by simp
  from missing_title_gets_sentinel [of null_title_row _ _ _ _ _ _ _ _ _ "[]" "[]"] n
  have 4: "extractSongs [null_title_row] = []" by blast
  from missing_title_gets_sentinel [of broken_row _ _ _ _ _ _ _ _ _ "[song_row]" "[solo_row]"] b
  have 5: "extractSongs [song_row, broken_row, solo_row] = extractSongs [song_row, solo_row]"
    by simp
  from 1 2 3 4 5 show ?thesis by simp
qed


section \<open>Claims about the export cycle\<close>

text \<open>
  C2, as stated, fails on the script: \<open>scrollToLoadAllSongs\<close> returns nothing to its
  caller, and \<open>exportSongs\<close> goes on after the alert. On a page with the button, no
  scroll container and one materialised row, the cycle calls \<open>extractSongs\<close>, writes the
  clipboard and downloads the file.
\<close>

theorem container_not_found_counterexample:
  "\<not> scrollContainer other_page \<and>
   exportSongs other_page one_row = Inr (other_page, other_page_effects) \<and>
   extract_calls other_page_effects = 1 \<and>
   GM_setClipboard ''Tsunami - DVBBS, Borgeous'' \<in> set other_page_effects \<and>
   DownloadFile ''spotify_songs.txt'' ''Tsunami - DVBBS, Borgeous'' \<in> set other_page_effects"
proof -
  have sc: "scrollToLoadAllSongs other_page one_row = [Alert containerNotFoundMsg]"
    using other_page_no_container by (simp add: scrollToLoadAllSongs_def)
  have "set_btn other_page example_button = other_page"
    by (simp add: set_btn_def other_page_def)
  then have "exportSongs other_page one_row = Inr (other_page, other_page_effects)"
    unfolding exportSongs_result [OF other_page_button] sc idle_def [symmetric] idle_example_button
    by (simp add: scroll_rounds_def one_row_songs exportSongs_finish_def other_page_effects_def
        other_page_def Let_def)
  moreover have "extract_calls other_page_effects = 1"
    by (simp add: extract_calls_def other_page_effects_def)
  moreover have "GM_setClipboard ''Tsunami - DVBBS, Borgeous'' \<in> set other_page_effects"
    "DownloadFile ''spotify_songs.txt'' ''Tsunami - DVBBS, Borgeous'' \<in> set other_page_effects"
    by (simp_all add: other_page_effects_def)
  ultimately show ?thesis using other_page_no_container by simp
qed

text \<open>
  C2, amended. When no scroll container is found, the loop is not entered (zero scroll
  rounds) and the user is told by an alert; the cycle then calls \<open>extractSongs\<close> once on
  the rows materialised at invocation and reports the result as on any other run: the
  "no songs" notice when there is no line, and the clipboard write, the download and
  the success notice otherwise.
\<close>

theorem container_not_found_still_extracts:
  assumes "\<not> scrollContainer p" and "getExportBtn p = Some b"
  shows "scrollToLoadAllSongs p rows_after = [Alert containerNotFoundMsg] \<and>
         scroll_rounds (scrollToLoadAllSongs p rows_after) = 0 \<and>
         exportSongs p rows_after =
           Inr (set_btn p (idle b),
                [SetBtnText ''Exporting...'', SetBtnDisabled True,
                 Alert containerNotFoundMsg, CallExtractSongs] @
                exportSongs_finish p (extractSongs (rows_after 0))) \<and>
         (extractSongs (rows_after 0) = [] \<longrightarrow>
            exportSongs_finish p (extractSongs (rows_after 0)) =
              [Alert noSongsMsg, SetBtnText ''Export Songs'', SetBtnDisabled False]) \<and>
         (extractSongs (rows_after 0) \<noteq> [] \<longrightarrow>
            exportSongs_finish p (extractSongs (rows_after 0)) =
              [if gmClipboard p then GM_setClipboard (join [CHR 0x0A] (extractSongs (rows_after 0)))
               else ClipboardWriteText (join [CHR 0x0A] (extractSongs (rows_after 0))),
               DownloadFile ''spotify_songs.txt'' (join [CHR 0x0A] (extractSongs (rows_after 0))),
               Alert (exportedMsg (length (extractSongs (rows_after 0)))),
               SetBtnText ''Export Songs'', SetBtnDisabled False])"
proof -
  have sc: "scrollToLoadAllSongs p rows_after = [Alert containerNotFoundMsg]"
    using assms(1) by (simp add: scrollToLoadAllSongs_def)
  have r: "scroll_rounds [Alert containerNotFoundMsg] = 0" by (simp add: scroll_rounds_def)
  have ex: "exportSongs p rows_after =
           Inr (set_btn p (idle b),
                [SetBtnText ''Exporting...'', SetBtnDisabled True,
                 Alert containerNotFoundMsg, CallExtractSongs] @
                exportSongs_finish p (extractSongs (rows_after 0)))"
    unfolding exportSongs_result [OF assms(2)] sc r idle_def by simp
  show ?thesis
    unfolding sc r using ex by (simp add: exportSongs_finish_def Let_def)
qed

theorem container_not_found_still_extracts_witness:
  "scrollToLoadAllSongs other_page one_row = [Alert containerNotFoundMsg] \<and>
   exportSongs other_page one_row =
     Inr (other_page,
          [SetBtnText ''Exporting...'', SetBtnDisabled True,
           Alert containerNotFoundMsg, CallExtractSongs] @
          exportSongs_finish other_page [''Tsunami - DVBBS, Borgeous'']) \<and>
   exportSongs other_page no_rows =
     Inr (other_page,
          [SetBtnText ''Exporting...'', SetBtnDisabled True,
           Alert containerNotFoundMsg, CallExtractSongs,
           Alert noSongsMsg, SetBtnText ''Export Songs'', SetBtnDisabled False])"
proof -
  have p: "set_btn other_page (idle example_button) = other_page"
    by (simp add: idle_example_button set_btn_def other_page_def)
  have n: "extractSongs (no_rows 0) = []" by (simp add: extractSongs_def no_rows_def)
  from container_not_found_still_extracts [OF other_page_no_container other_page_button, of one_row]
  have 1: "scrollToLoadAllSongs other_page one_row = [Alert containerNotFoundMsg]"
    and 2: "exportSongs other_page one_row =
     Inr (other_page,
          [SetBtnText ''Exporting...'', SetBtnDisabled True,
           Alert containerNotFoundMsg, CallExtractSongs] @
          exportSongs_finish other_page [''Tsunami - DVBBS, Borgeous''])"
    by (simp_all only: p one_row_songs)
  from container_not_found_still_extracts [OF other_page_no_container other_page_button, of no_rows] n
  have 3: "exportSongs other_page no_rows =
     Inr (other_page,
          [SetBtnText ''Exporting...'', SetBtnDisabled True,
           Alert containerNotFoundMsg, CallExtractSongs,
           Alert noSongsMsg, SetBtnText ''Export Songs'', SetBtnDisabled False])"
    by (simp add: p)
  from 1 2 3 show ?thesis by simp
qed

text \<open>
  C7. A cycle whose extraction gives no line ends with the "no songs found" notice and
  performs no clipboard write, no download and no notice that begins with "Exported".
  A cycle whose extraction gives \<open>n > 0\<close> lines shows the notice
  \<open>"Exported n songs!"\<close>, a line break, \<open>"Copied to clipboard and downloaded as
  spotify_songs.txt"\<close>, where \<open>n\<close> is written as a non-empty run of decimal digits whose
  value is the number of lines, and it shows no "no songs found" notice.
\<close>

theorem empty_result_is_not_a_success:
  assumes "exportSongs p rows_after = Inr (p', effects)"
    and "songs = extractSongs (rows_after (scroll_rounds effects))"
  shows "(songs = [] \<longrightarrow>
            Alert ''No songs found! Make sure you are on a playlist or liked songs page.''
              \<in> set effects \<and>
            (\<forall>t. GM_setClipboard t \<notin> set effects) \<and>
            (\<forall>t. ClipboardWriteText t \<notin> set effects) \<and>
            (\<forall>f t. DownloadFile f t \<notin> set effects) \<and>
            (\<forall>m. Alert (''Exported '' @ m) \<notin> set effects)) \<and>
         (songs \<noteq> [] \<longrightarrow>
            Alert (''Exported '' @ string_of_nat (length songs) @ '' songs!'' @ [CHR 0x0A] @
                   ''Copied to clipboard and downloaded as spotify_songs.txt'') \<in> set effects \<and>
            string_of_nat (length songs) \<noteq> [] \<and>
            list_all (\<lambda>c. c \<in> set ''0123456789'') (string_of_nat (length songs)) \<and>
            nat_of_digits (string_of_nat (length songs)) = length songs \<and>
            Alert ''No songs found! Make sure you are on a playlist or liked songs page.''
              \<notin> set effects)"
proof -
  from assms(1) obtain b where
    e: "effects = [SetBtnText ''Exporting...'', SetBtnDisabled True] @ scrollToLoadAllSongs p rows_after @
          [CallExtractSongs] @
          exportSongs_finish p (extractSongs (rows_after (scroll_rounds (scrollToLoadAllSongs p rows_after))))"
    and r: "scroll_rounds effects = scroll_rounds (scrollToLoadAllSongs p rows_after)"
    by (rule exportSongs_InrD)
  from assms(2) r
  have s: "extractSongs (rows_after (scroll_rounds (scrollToLoadAllSongs p rows_after))) = songs"
    by simp
  have sc: "set (scrollToLoadAllSongs p rows_after) \<subseteq> {ScrollTo, Sleep 700, Alert containerNotFoundMsg}"
    by (rule scrolled_events)
  have no: "noSongsMsg = ''No songs found! Make sure you are on a playlist or liked songs page.''"
    by (simp add: noSongsMsg_def)
  have ex: "exportedMsg n = ''Exported '' @ string_of_nat n @ '' songs!'' @ [CHR 0x0A] @
      ''Copied to clipboard and downloaded as spotify_songs.txt''" for n
    by (simp add: exportedMsg_def)
  have d1: "''Exported '' @ m \<noteq> noSongsMsg" "''Exported '' @ m \<noteq> containerNotFoundMsg" for m
    by (simp_all add: noSongsMsg_def containerNotFoundMsg_def)
  show ?thesis
  proof (intro conjI impI)
    assume "songs = []"
    then have f: "exportSongs_finish p songs =
        [Alert noSongsMsg, SetBtnText ''Export Songs'', SetBtnDisabled False]"
      by (simp add: exportSongs_finish_def)
    show "Alert ''No songs found! Make sure you are on a playlist or liked songs page.''
        \<in> set effects"
      unfolding e s f no [symmetric] by simp
    show "\<forall>t. GM_setClipboard t \<notin> set effects" unfolding e s f using sc by auto
    show "\<forall>t. ClipboardWriteText t \<notin> set effects" unfolding e s f using sc by auto
    show "\<forall>f t. DownloadFile f t \<notin> set effects" unfolding e s f using sc by auto
    show "\<forall>m. Alert (''Exported '' @ m) \<notin> set effects"
      unfolding e s f using sc d1 by auto
  next
    assume "songs \<noteq> []"
    then have f: "exportSongs_finish p songs =
        [if gmClipboard p then GM_setClipboard (join [CHR 0x0A] songs)
         else ClipboardWriteText (join [CHR 0x0A] songs),
         DownloadFile ''spotify_songs.txt'' (join [CHR 0x0A] songs),
         Alert (exportedMsg (length songs)),
         SetBtnText ''Export Songs'', SetBtnDisabled False]"
      by (simp add: exportSongs_finish_def Let_def)
    have "Alert (exportedMsg (length songs)) \<in> set effects" unfolding e s f by simp
    then show "Alert (''Exported '' @ string_of_nat (length songs) @ '' songs!'' @ [CHR 0x0A] @
        ''Copied to clipboard and downloaded as spotify_songs.txt'') \<in> set effects"
      by (simp only: ex)
    have "Alert noSongsMsg \<notin> set effects"
      unfolding e s f using sc messages_differ messages_differ [symmetric]
      by (auto split: if_splits)
    then show "Alert ''No songs found! Make sure you are on a playlist or liked songs page.''
        \<notin> set effects"
      by (simp add: no)
    show "string_of_nat (length songs) \<noteq> []"
      "list_all (\<lambda>c. c \<in> set ''0123456789'') (string_of_nat (length songs))"
      using string_of_nat_digits [of "length songs"] by simp_all
    show "nat_of_digits (string_of_nat (length songs)) = length songs"
      by (rule nat_of_digits_string_of_nat)
  qed
qed

theorem empty_result_is_not_a_success_witness:
  "Alert ''No songs found! Make sure you are on a playlist or liked songs page.''
     \<in> set (effects_of (exportSongs playlist_page no_rows)) \<and>
   Alert (''Exported 12 songs!'' @ [CHR 0x0A] @
          ''Copied to clipboard and downloaded as spotify_songs.txt'')
     \<in> set (effects_of (exportSongs playlist_page twelve_rows))"
proof -
  obtain p1 e1 where ex1: "exportSongs playlist_page no_rows = Inr (p1, e1)"
    using exportSongs_result [OF playlist_page_button, of no_rows] by blast
  have s1: "[] = extractSongs (no_rows (scroll_rounds e1))"
    by (simp add: extractSongs_def no_rows_def)
  from empty_result_is_not_a_success [OF ex1 s1]
  have 1: "Alert ''No songs found! Make sure you are on a playlist or liked songs page.''
      \<in> set e1" by blast
  obtain p2 e2 where ex2: "exportSongs playlist_page twelve_rows = Inr (p2, e2)"
    using exportSongs_result [OF playlist_page_button, of twelve_rows] by blast
  have s2: "replicate 12 ''Tsunami - DVBBS, Borgeous'' = extractSongs (twelve_rows (scroll_rounds e2))"
    by (simp only: twelve_rows_songs)
  have ne: "replicate 12 ''Tsunami - DVBBS, Borgeous'' \<noteq> []" by simp
  have n12: "string_of_nat 12 = ''12''" by (simp add: string_of_nat.simps digit_char_def)
  from empty_result_is_not_a_success [OF ex2 s2] ne
  have "Alert (''Exported '' @ string_of_nat 12 @ '' songs!'' @ [CHR 0x0A] @
          ''Copied to clipboard and downloaded as spotify_songs.txt'') \<in> set e2"
    by simp
  then have 2: "Alert (''Exported 12 songs!'' @ [CHR 0x0A] @
          ''Copied to clipboard and downloaded as spotify_songs.txt'') \<in> set e2"
    by (simp add: n12)
  from 1 2 show ?thesis by (simp add: effects_of_def ex1 ex2)
qed




text \<open>
  C9. On a page that already has the button, \<open>addExportButton\<close> changes nothing.
  Calling it twice, or any number of times, gives the same page as calling it once, and
  a page with at most one button keeps at most one.
\<close>

theorem addExportButton_is_idempotent:
  "(getExportBtn p \<noteq> None \<longrightarrow> addExportButton p = p) \<and>
   addExportButton (addExportButton p) = addExportButton p \<and>
   (addExportButton ^^ Suc n) p = addExportButton p \<and>
   (length (exportButtons p) \<le> 1 \<longrightarrow> length (exportButtons ((addExportButton ^^ n) p)) \<le> 1)"
proof -
  have same: "getExportBtn q \<noteq> None \<Longrightarrow> addExportButton q = q" for q
    by (simp add: addExportButton_def)
  have idem: "addExportButton (addExportButton q) = addExportButton q" for q
    by (cases "exportButtons q") (simp_all add: addExportButton_def getExportBtn_def)
  have pow: "(addExportButton ^^ Suc m) p = addExportButton p" for m
    by (induction m) (simp_all add: idem)
  have one: "length (exportButtons q) \<le> 1 \<Longrightarrow> length (exportButtons (addExportButton q)) \<le> 1" for q
    by (cases "exportButtons q") (simp_all add: addExportButton_def getExportBtn_def)
  have many: "length (exportButtons p) \<le> 1 \<Longrightarrow>
      length (exportButtons ((addExportButton ^^ m) p)) \<le> 1" for m
  proof (induction m)
    case 0
    then show ?case by simp
  next
    case (Suc m)
    then have "length (exportButtons ((addExportButton ^^ m) p)) \<le> 1" by simp
    then have "length (exportButtons (addExportButton ((addExportButton ^^ m) p))) \<le> 1"
      by (rule one)
    then show ?case by simp
  qed
  from same idem pow many show ?thesis by blast
qed

theorem addExportButton_is_idempotent_witness:
  "exportButtons (addExportButton fresh_page) = [newExportButton] \<and>
   addExportButton (addExportButton fresh_page) = addExportButton fresh_page \<and>
   addExportButton playlist_page = playlist_page \<and>
   length (exportButtons ((addExportButton ^^ 5) fresh_page)) \<le> 1"
proof -
  have f: "exportButtons (addExportButton fresh_page) = [newExportButton]"
    by (simp add: addExportButton_def getExportBtn_def fresh_page_def)
  have b: "getExportBtn playlist_page \<noteq> None" by (simp add: playlist_page_button)
  have l: "length (exportButtons fresh_page) \<le> 1" by (simp add: fresh_page_def)
  from addExportButton_is_idempotent [of fresh_page 5] l
  have 1: "addExportButton (addExportButton fresh_page) = addExportButton fresh_page"
    and 2: "length (exportButtons ((addExportButton ^^ 5) fresh_page)) \<le> 1" by blast+
  from addExportButton_is_idempotent [of playlist_page 0] b
  have 3: "addExportButton playlist_page = playlist_page" by blast
  from f 1 2 3 show ?thesis by simp
qed


end
